theory Spec2Isabelle
  imports Main
begin

section \<open>Data model of the private DNS configuration (PrivateDnsConfiguration.h)\<close>

text \<open>
  Modelled from the spec: the enum \<open>Validation\<close> is declared in DnsTlsServer.h, which is
  not part of this development. The spec's data model gives a server's validation status
  as one of unknown, in_process, success, fail; PrivateDnsConfiguration.h itself uses
  \<open>Validation::success\<close> and \<open>Validation::in_process\<close>.
\<close>

datatype Validation = unknown | in_process | success | fail

text \<open>
  Modelled from the spec: the enum \<open>PrivateDnsMode\<close> is declared outside
  PrivateDnsConfiguration.h; the spec gives the privacy mode as one of OFF, OPPORTUNISTIC,
  STRICT.
\<close>

datatype PrivateDnsMode = OFF | OPPORTUNISTIC | STRICT

subsection \<open>The status snapshot of one network\<close>

text \<open>\<open>struct DohServerInfo\<close>.\<close>

record DohServerInfo =
  httpsTemplate :: string
  status :: Validation

text \<open>
  \<open>struct PrivateDnsStatus\<close>. Its two members of type \<open>std::map\<close> are association lists
  in iteration order, that is, ascending in the map's comparator. The key types
  \<open>DnsTlsServer\<close> and \<open>netdutils::IPSockAddr\<close> and the comparator \<open>AddressComparator\<close> are
  declared in headers that are not part of this development: the key types are the type
  parameters \<open>'srv\<close> and \<open>'addr\<close>, and the comparator is a parameter of \<open>stdMapOrdered\<close>.
\<close>

record ('srv, 'addr) PrivateDnsStatus =
  mode :: PrivateDnsMode
  dotServersMap :: "('srv \<times> Validation) list"
  dohServersMap :: "('addr \<times> DohServerInfo) list"

text \<open>
  What a \<open>std::map\<close> with comparator \<open>cmp\<close> guarantees of its iteration: the keys come
  strictly ascending; as the comparator is irreflexive, no key comes twice.
\<close>

definition stdMapOrdered :: "('k \<Rightarrow> 'k \<Rightarrow> bool) \<Rightarrow> ('k \<times> 'v) list \<Rightarrow> bool" where
  "stdMapOrdered cmp m = (irreflp cmp \<and> sorted_wrt cmp (map fst m))"

text \<open>
  \<open>PrivateDnsStatus::validatedServers()\<close>: the loop over \<open>dotServersMap\<close> appends
  (\<open>push_back\<close>) the key of every pair whose value is \<open>Validation::success\<close> to the list
  \<open>servers\<close>, which starts empty.
\<close>

definition validatedServers :: "('srv, 'addr) PrivateDnsStatus \<Rightarrow> 'srv list" where
  "validatedServers st =
     fold (\<lambda>pair servers. if snd pair = success then servers @ [fst pair] else servers)
       (dotServersMap st) []"

text \<open>
  The order the specification asks of \<open>validatedServers\<close>, in the words of its section 4.1:
  "pick the usable one with lowest RTT EWMA; servers with no successful sample are ranked
  after usable ones". \<open>ServerHealth\<close> is what \<open>aggregate()\<close> and \<open>usable()\<close> report of one
  server; \<open>orderedByHealth\<close> says that a list puts usable servers first and, within the
  usable and within the unusable ones, the lower RTT EWMA first. These two definitions follow
  the specification, not the header, which has no health statistics.
\<close>

record ServerHealth =
  usable :: bool
  rttEwma :: int

definition healthBefore :: "ServerHealth \<Rightarrow> ServerHealth \<Rightarrow> bool" where
  "healthBefore a b = (if usable a = usable b then rttEwma a \<le> rttEwma b else usable a)"

definition orderedByHealth :: "('srv \<Rightarrow> ServerHealth) \<Rightarrow> 'srv list \<Rightarrow> bool" where
  "orderedByHealth stats servers = sorted_wrt (\<lambda>a b. healthBefore (stats a) (stats b)) servers"

text \<open>
  A network with two validated DoT servers, keyed by the numbers 1 and 2 under the
  comparator \<open><\<close>, and health statistics in which the second is the faster one.
\<close>

definition twoValidated :: "(nat, nat) PrivateDnsStatus" where
  "twoValidated =
     \<lparr>mode = OPPORTUNISTIC, dotServersMap = [(1, success), (2, success)], dohServersMap = []\<rparr>"

definition secondIsFaster :: "nat \<Rightarrow> ServerHealth" where
  "secondIsFaster srv = (if srv = 1 then \<lparr>usable = True, rttEwma = 50\<rparr>
                         else \<lparr>usable = True, rttEwma = 10\<rparr>)"

subsection \<open>The servers a network's snapshot is taken from\<close>

text \<open>
  Modelled from the spec: the class \<open>DnsTlsServer\<close> is declared in DnsTlsServer.h, which is
  not part of this development. PrivateDnsConfiguration.h reads \<open>server.addr()\<close> and
  \<open>server.provider()\<close>; the spec's ServerEntry adds the "validation status" and the "active
  flag" ("a server whose identity no longer appears in the current configuration has
  active=false"). The address type \<open>netdutils::IPSockAddr\<close> is the type parameter.
\<close>

record 'a DnsTlsServer =
  addr :: 'a
  provider :: string
  validationState :: Validation
  active :: bool

text \<open>
  \<open>struct ServerIdentity\<close>: the pair of \<open>sockaddr\<close> and \<open>provider\<close>, which its operators
  compare through \<open>std::tie\<close>.
\<close>

type_synonym 'a ServerIdentity = "'a \<times> string"

text \<open>
  \<open>std::map::emplace\<close> on the association list of a map with comparator \<open>cmp\<close>: the pair
  goes in at its place in key order, unless the map already has an equivalent key (neither
  below the other), and then the map stays as it is.
\<close>

fun emplace :: "('k \<Rightarrow> 'k \<Rightarrow> bool) \<Rightarrow> 'k \<Rightarrow> 'v \<Rightarrow> ('k \<times> 'v) list \<Rightarrow> ('k \<times> 'v) list" where
  "emplace cmp k v [] = [(k, v)]"
| "emplace cmp k v ((k', v') # rest) =
     (if cmp k k' then (k, v) # (k', v') # rest
      else if cmp k' k then (k', v') # emplace cmp k v rest
      else (k', v') # rest)"

text \<open>
  Modelled from the spec: one step of the loop by which \<open>getStatusLocked\<close> fills
  \<open>dotServersMap\<close> from the network's entry of \<open>mDotTracker\<close>: an active server goes into
  the map with its validation status, an inactive one is passed over ("queries must not be
  routed to inactive servers"; "the set of DoT servers reachable by queries equals the
  subset of ServerEntry with active=true and status=success").
\<close>

definition addActiveServer ::
  "('a DnsTlsServer \<Rightarrow> 'a DnsTlsServer \<Rightarrow> bool) \<Rightarrow> 'a ServerIdentity \<times> 'a DnsTlsServer \<Rightarrow>
   ('a DnsTlsServer \<times> Validation) list \<Rightarrow> ('a DnsTlsServer \<times> Validation) list" where
  "addActiveServer cmp entry servers =
     (if active (snd entry)
      then emplace cmp (snd entry) (validationState (snd entry)) servers
      else servers)"

text \<open>
  Modelled from the spec: \<open>getStatusLocked\<close> is declared in PrivateDnsConfiguration.h and
  its body is missing. The spec: "get(netId): returns a snapshot (mode, validated DoT list,
  DoH server status map)". For one network: \<open>m\<close> is its entry of \<open>mPrivateDnsModes\<close>,
  \<open>dotTracker\<close> its entry of \<open>mDotTracker\<close> (a \<open>std::map<ServerIdentity, DnsTlsServer>\<close>, in
  iteration order), \<open>cmp\<close> the \<open>AddressComparator\<close> of \<open>dotServersMap\<close>, and \<open>doh\<close> the DoH
  servers of the snapshot, which are passed through.
\<close>

definition getStatusLocked ::
  "('a DnsTlsServer \<Rightarrow> 'a DnsTlsServer \<Rightarrow> bool) \<Rightarrow> PrivateDnsMode \<Rightarrow>
   ('a ServerIdentity \<times> 'a DnsTlsServer) list \<Rightarrow> ('addr \<times> DohServerInfo) list \<Rightarrow>
   ('a DnsTlsServer, 'addr) PrivateDnsStatus" where
  "getStatusLocked cmp m dotTracker doh =
     \<lparr>mode = m, dotServersMap = fold (addActiveServer cmp) dotTracker [], dohServersMap = doh\<rparr>"

text \<open>The active servers of a network's entry of \<open>mDotTracker\<close>.\<close>

definition activeServers :: "('a ServerIdentity \<times> 'a DnsTlsServer) list \<Rightarrow> 'a DnsTlsServer set" where
  "activeServers dotTracker = {srv \<in> snd ` set dotTracker. active srv}"

text \<open>
  What is asked of the comparator, which is declared in DnsTlsServer.h and is a parameter
  here: it is a strict order, as \<open>std::map\<close> requires, and it tells any two active servers
  of the network apart. A \<open>std::map\<close> keeps one entry per key, so of two active servers
  that the comparator does not tell apart only the first would reach the snapshot.
\<close>

definition comparatorOrders ::
  "('a DnsTlsServer \<Rightarrow> 'a DnsTlsServer \<Rightarrow> bool) \<Rightarrow>
   ('a ServerIdentity \<times> 'a DnsTlsServer) list \<Rightarrow> bool" where
  "comparatorOrders cmp dotTracker =
     (irreflp cmp \<and> transp cmp \<and>
      (\<forall>a \<in> activeServers dotTracker. \<forall>b \<in> activeServers dotTracker.
         a = b \<or> cmp a b \<or> cmp b a))"

text \<open>
  A network for the examples: addresses are numbers, the comparator compares addresses, and
  every server has the provider name \<open>dns.example\<close>. The tracker holds a validated server
  that is no longer active (address 1), active servers in each of the four statuses, and
  its entries are not in address order.
\<close>

definition byAddress :: "nat DnsTlsServer \<Rightarrow> nat DnsTlsServer \<Rightarrow> bool" where
  "byAddress a b = (addr a < addr b)"

definition exampleServer :: "nat \<Rightarrow> Validation \<Rightarrow> bool \<Rightarrow> nat DnsTlsServer" where
  "exampleServer a v act =
     \<lparr>addr = a, provider = ''dns.example'', validationState = v, active = act\<rparr>"

definition exampleEntry ::
  "nat \<Rightarrow> Validation \<Rightarrow> bool \<Rightarrow> nat ServerIdentity \<times> nat DnsTlsServer" where
  "exampleEntry a v act = ((a, ''dns.example''), exampleServer a v act)"

definition exampleTracker :: "(nat ServerIdentity \<times> nat DnsTlsServer) list" where
  "exampleTracker =
     [exampleEntry 1 success False, exampleEntry 4 success True, exampleEntry 5 fail True,
      exampleEntry 6 in_process True, exampleEntry 7 unknown True, exampleEntry 2 success True]"

definition noDoh :: "(nat \<times> DohServerInfo) list" where
  "noDoh = []"

text \<open>
  A tracker in which two active, validated servers have the same address and different
  provider names: two identities, one key under a comparator of addresses.
\<close>

definition exampleServerNet :: "nat DnsTlsServer" where
  "exampleServerNet =
     \<lparr>addr = 3, DnsTlsServer.provider = ''dns.example.net'', validationState = success,
      active = True\<rparr>"

definition sameAddressTracker :: "(nat ServerIdentity \<times> nat DnsTlsServer) list" where
  "sameAddressTracker =
     [exampleEntry 3 success True, ((3, ''dns.example.net''), exampleServerNet)]"

subsection \<open>DoH provider table and identities\<close>

text \<open>
  \<open>struct DohProviderEntry\<close>: \<open>ips\<close> is a \<open>std::set<std::string>\<close>, so membership
  (\<open>ips.find(ip) != ips.end()\<close>) is set membership.
\<close>

record DohProviderEntry =
  provider :: string
  ips :: "string set"
  host :: string
  httpsTemplate :: string
  requireRootPermission :: bool

text \<open>
  \<open>struct DohIdentity\<close>. Its fields \<open>host\<close> and \<open>httpsTemplate\<close> share their names with
  those of \<open>DohProviderEntry\<close>; the provider's are written qualified below.
\<close>

record DohIdentity =
  httpsTemplate :: string
  ipAddr :: string
  host :: string
  status :: Validation

text \<open>
  The two failures of \<open>getDohIdentity\<close>: \<open>Errorf("host {} not matched", host)\<close> and
  \<open>Errorf("server not matched")\<close>.
\<close>

datatype DohError = host_not_matched string | server_not_matched

text \<open>
  The identity both return statements of \<open>getDohIdentity\<close> build:
  \<open>DohIdentity{httpsTemplate, ip, host, Validation::in_process}\<close>, where \<open>httpsTemplate\<close>
  is the provider's member and \<open>host\<close> is the function's argument.
\<close>

definition makeIdentity :: "DohProviderEntry \<Rightarrow> string \<Rightarrow> string \<Rightarrow> DohIdentity" where
  "makeIdentity this ip h =
     \<lparr>httpsTemplate = DohProviderEntry.httpsTemplate this, ipAddr = ip, host = h,
      status = in_process\<rparr>"

text \<open>
  The loop \<open>for (const auto& ip : sortedValidIps)\<close> of \<open>getDohIdentity\<close>: skip every
  address that is not in the provider's set, return at the first that is, and fail with
  "server not matched" when the vector is exhausted.
\<close>

fun matchKnownIp :: "DohProviderEntry \<Rightarrow> string list \<Rightarrow> string \<Rightarrow> DohError + DohIdentity" where
  "matchKnownIp this [] h = Inl server_not_matched"
| "matchKnownIp this (ip # rest) h =
     (if ip \<notin> ips this then matchKnownIp this rest h
      else Inr (makeIdentity this ip h))"

text \<open>
  \<open>DohProviderEntry::getDohIdentity(sortedValidIps, host)\<close>. With a non-empty \<open>host\<close>, a
  mismatch returns at once; a match returns \<open>sortedValidIps[0]\<close> when the vector is not
  empty and otherwise falls out of the \<open>if\<close> into the loop.
\<close>

definition getDohIdentity ::
  "DohProviderEntry \<Rightarrow> string list \<Rightarrow> string \<Rightarrow> DohError + DohIdentity" where
  "getDohIdentity this sortedValidIps h =
     (if h \<noteq> [] then
        (if DohProviderEntry.host this \<noteq> h then Inl (host_not_matched h)
         else if sortedValidIps \<noteq> [] then Inr (makeIdentity this (sortedValidIps ! 0) h)
         else matchKnownIp this sortedValidIps h)
      else matchKnownIp this sortedValidIps h)"

text \<open>The first entry of \<open>mAvailableDoHProviders\<close>.\<close>

definition googleProvider :: DohProviderEntry where
  "googleProvider =
     \<lparr>provider = ''Google'',
      ips = {''2001:4860:4860::8888'', ''2001:4860:4860::8844'', ''8.8.8.8'', ''8.8.4.4''},
      host = ''dns.google'',
      httpsTemplate = ''https://dns.google/dns-query'',
      requireRootPermission = False\<rparr>"

section \<open>Search domains of a network's configuration\<close>

text \<open>
  Modelled from the spec: the code that filters the search domains when a configuration is
  set is not part of this development; only the test SearchPathPrune, which calls it through
  \<open>setResolverConfiguration\<close> and reads the result with \<open>getResolverInfo\<close>, is. The spec:
  "Search-domain deduplication preserves first-occurrence order; entries exceeding 255 bytes
  are dropped before the 6-entry cap." The test names the cap \<open>MAXDNSRCH\<close> ("Max number of
  domains in search path is 6") and the length bound ("Domain length should be <= 255").
\<close>

definition MAXDNSRCH :: nat where
  "MAXDNSRCH = 6"

text \<open>
  Modelled from the spec: the length check, "entries exceeding 255 bytes are dropped". The
  code that makes it is missing; a \<open>std::string\<close>'s size is its number of bytes.
\<close>

definition domainFits :: "string \<Rightarrow> bool" where
  "domainFits d = (length d \<le> 255)"

text \<open>
  Modelled from the spec: deduplication in input order. \<open>seen\<close> holds the domains already
  kept; a domain is kept the first time it comes and skipped every later time.
\<close>

fun keepFirst :: "string list \<Rightarrow> string list \<Rightarrow> string list" where
  "keepFirst seen [] = []"
| "keepFirst seen (d # ds) =
     (if d \<in> set seen then keepFirst seen ds else d # keepFirst (d # seen) ds)"

text \<open>
  Modelled from the spec: the three steps in the spec's order: drop the domains that are too
  long, drop the repetitions, cut to \<open>MAXDNSRCH\<close> entries.
\<close>

definition filterDomains :: "string list \<Rightarrow> string list" where
  "filterDomains domains = take MAXDNSRCH (keepFirst [] (filter domainFits domains))"

text \<open>
  Modelled from the spec: the part of a network's configuration that the claim reads, and
  the two operations on the per-network table: "For every configuration set, a subsequent
  get returns exactly the inputs (after dedupe/cap of search domains ...)".
\<close>

record ResolverInfo =
  servers :: "string list"
  domains :: "string list"

text \<open>
  Modelled from the spec: \<open>setResolverConfiguration\<close>, whose code is missing, as far as the
  servers and the search domains go: "installs a new snapshot", with the domains
  normalised.
\<close>

definition setResolverConfiguration ::
  "nat \<Rightarrow> string list \<Rightarrow> string list \<Rightarrow> (nat \<rightharpoonup> ResolverInfo) \<Rightarrow> (nat \<rightharpoonup> ResolverInfo)" where
  "setResolverConfiguration netId srvs doms table =
     table(netId \<mapsto> \<lparr>servers = srvs, domains = filterDomains doms\<rparr>)"

text \<open>
  Modelled from the spec: \<open>getResolverInfo\<close>, whose code is missing: the snapshot installed
  for the network, if any.
\<close>

definition getResolverInfo :: "nat \<Rightarrow> (nat \<rightharpoonup> ResolverInfo) \<Rightarrow> ResolverInfo option" where
  "getResolverInfo netId table = table netId"

text \<open>
  The first input of the test SearchPathPrune: \<open>MAXDNSRCH + 1\<close> domains of 300 bytes each
  (\<open>std::string(300, i + '0')\<close>), then \<open>domain13.org.\<close>.
\<close>

definition testDomains1 :: "string list" where
  "testDomains1 = map (replicate 300) ''0123456'' @ [''domain13.org.'']"

text \<open>
  The second input of the test SearchPathPrune: \<open>MAXDNSRCH + 1\<close> domains
  \<open>domain{i % 3}.org\<close>, then \<open>domain14.org.\<close> twice.
\<close>

definition testDomains2 :: "string list" where
  "testDomains2 =
     [''domain0.org'', ''domain1.org'', ''domain2.org'', ''domain0.org'', ''domain1.org'',
      ''domain2.org'', ''domain0.org'', ''domain14.org.'', ''domain14.org.'']"

section \<open>Backoff of the validation retries\<close>

text \<open>
  \<open>mBackoffBuilder\<close>: \<open>withInitialRetransmissionTime(std::chrono::seconds(60))\<close> and
  \<open>withMaximumRetransmissionTime(std::chrono::seconds(3600))\<close>. Times are in seconds.
\<close>

record Builder =
  initialRetransmissionTime :: int
  maximumRetransmissionTime :: int

definition mBackoffBuilder :: Builder where
  "mBackoffBuilder = \<lparr>initialRetransmissionTime = 60, maximumRetransmissionTime = 3600\<rparr>"

text \<open>
  Modelled from the spec: the class \<open>netdutils::BackoffSequence\<close> is not part of this
  development. The spec: "Backoff: initial 60 s, doubling per failure, capped at 3600 s."
  The sequence keeps the delay it hands out next; each call of \<open>getNextTimeout\<close> returns it,
  bounded by the maximum, and doubles it for the following call.
\<close>

record BackoffSequence =
  mNextTimeout :: int
  mMaxRetransTime :: int

text \<open>
  Modelled from the spec: \<open>Builder::build()\<close>, whose code is missing: the sequence starts at
  the builder's initial time and is capped at its maximum.
\<close>

definition build :: "Builder \<Rightarrow> BackoffSequence" where
  "build b =
     \<lparr>mNextTimeout = initialRetransmissionTime b, mMaxRetransTime = maximumRetransmissionTime b\<rparr>"

text \<open>
  Modelled from the spec: \<open>BackoffSequence::getNextTimeout()\<close>, whose code is missing:
  "doubling per failure, capped at 3600 s". It returns the delay and the sequence's next
  state.
\<close>

definition getNextTimeout :: "BackoffSequence \<Rightarrow> int \<times> BackoffSequence" where
  "getNextTimeout s =
     (let timeout = min (mNextTimeout s) (mMaxRetransTime s)
      in (timeout, s\<lparr>mNextTimeout := 2 * timeout\<rparr>))"

text \<open>
  Modelled from the spec: the delay before the retry that follows the \<open>n\<close>-th failure,
  counting from 0. The validation loop that sleeps between attempts is missing; the delay
  is the value of the call of \<open>getNextTimeout\<close> that comes after \<open>n\<close> earlier calls.
\<close>

fun nthTimeout :: "nat \<Rightarrow> BackoffSequence \<Rightarrow> int" where
  "nthTimeout 0 s = fst (getNextTimeout s)"
| "nthTimeout (Suc n) s = nthTimeout n (snd (getNextTimeout s))"

section \<open>Properties of validatedServers\<close>

lemma push_back_loop:
  "fold (\<lambda>pair servers. if snd pair = success then servers @ [fst pair] else servers) m acc =
     acc @ map fst (filter (\<lambda>pair. snd pair = success) m)"
  by (induction m arbitrary: acc) simp_all

lemma validatedServers_filter:
  "validatedServers st = map fst (filter (\<lambda>pair. snd pair = success) (dotServersMap st))"
  by (simp add: validatedServers_def push_back_loop)

lemma ascending_keys_distinct:
  "irreflp cmp \<Longrightarrow> sorted_wrt cmp xs \<Longrightarrow> distinct xs"
  by (induction xs) (auto dest: irreflpD)

lemma ascending_filter:
  "sorted_wrt cmp (map fst m) \<Longrightarrow> sorted_wrt cmp (map fst (filter P m))"
  by (induction m) auto

lemma distinct_keys_one_value:
  "distinct (map fst m) \<Longrightarrow> (k, v) \<in> set m \<Longrightarrow> (k, w) \<in> set m \<Longrightarrow> v = w"
  by (induction m) (auto simp: rev_image_eqI)

text \<open>
  Of any snapshot whose \<open>dotServersMap\<close> iterates as a \<open>std::map\<close> does:
  \<open>validatedServers\<close> returns exactly the servers recorded with status \<open>success\<close>, none
  recorded with another status, each once, in the map's key order.
\<close>

lemma validatedServers_of_ordered_map:
  assumes ordered: "stdMapOrdered cmp (dotServersMap st)"
  shows "set (validatedServers st) = {srv. (srv, success) \<in> set (dotServersMap st)}
       \<and> (\<forall>(srv, v) \<in> set (dotServersMap st). v \<noteq> success \<longrightarrow> srv \<notin> set (validatedServers st))
       \<and> sorted_wrt cmp (validatedServers st)
       \<and> distinct (validatedServers st)"
proof (intro conjI)
  from ordered have irrefl: "irreflp cmp" and asc: "sorted_wrt cmp (map fst (dotServersMap st))"
    by (simp_all add: stdMapOrdered_def)
  from irrefl asc have keys: "distinct (map fst (dotServersMap st))"
    by (rule ascending_keys_distinct)
  show members: "set (validatedServers st) = {srv. (srv, success) \<in> set (dotServersMap st)}"
    by (force simp: validatedServers_filter)
  show "\<forall>(srv, v) \<in> set (dotServersMap st). v \<noteq> success \<longrightarrow> srv \<notin> set (validatedServers st)"
  proof (clarify)
    fix srv v
    assume entry: "(srv, v) \<in> set (dotServersMap st)" and other: "v \<noteq> success"
      and listed: "srv \<in> set (validatedServers st)"
    from listed members have "(srv, success) \<in> set (dotServersMap st)" by simp
    with keys entry have "v = success" by (rule distinct_keys_one_value)
    with other show False by simp
  qed
  show sorted: "sorted_wrt cmp (validatedServers st)"
    unfolding validatedServers_filter using asc by (rule ascending_filter)
  from irrefl sorted show "distinct (validatedServers st)"
    by (rule ascending_keys_distinct)
qed

subsection \<open>The snapshot that getStatusLocked fills\<close>

lemma emplace_subset: "set (emplace cmp k v m) \<subseteq> insert (k, v) (set m)"
  by (induction m) (auto split: if_splits)

lemma emplace_keeps: "set m \<subseteq> set (emplace cmp k v m)"
  by (induction m) auto

lemma emplace_adds:
  "\<forall>(k', v') \<in> set m. cmp k k' \<or> cmp k' k \<or> (k', v') = (k, v) \<Longrightarrow>
     (k, v) \<in> set (emplace cmp k v m)"
  by (induction m) auto

lemma emplace_sorted:
  assumes "transp cmp" and "sorted_wrt cmp (map fst m)"
  shows "sorted_wrt cmp (map fst (emplace cmp k v m))"
  using assms(2)
proof (induction m)
  case Nil
  show ?case by simp
next
  case (Cons p rest)
  obtain k' v' where p: "p = (k', v')" by (cases p)
  from Cons.prems p have above: "\<forall>x \<in> set rest. cmp k' (fst x)"
    and tail: "sorted_wrt cmp (map fst rest)" by simp_all
  show ?case
  proof (cases "cmp k k'")
    case True
    with assms(1) above have "\<forall>x \<in> set rest. cmp k (fst x)"
      by (blast dest: transpD)
    with True above tail p show ?thesis by simp
  next
    case False
    show ?thesis
    proof (cases "cmp k' k")
      case True
      have "\<forall>x \<in> set (emplace cmp k v rest). cmp k' (fst x)"
      proof
        fix x
        assume "x \<in> set (emplace cmp k v rest)"
        with emplace_subset [of cmp k v rest] have "x = (k, v) \<or> x \<in> set rest" by blast
        with True above show "cmp k' (fst x)" by auto
      qed
      with True False Cons.IH [OF tail] p show ?thesis by simp
    next
      case False
      with \<open>\<not> cmp k k'\<close> Cons.prems p show ?thesis by simp
    qed
  qed
qed

lemma snapshot_sorted:
  assumes "transp cmp"
  shows "sorted_wrt cmp (map fst acc) \<Longrightarrow>
     sorted_wrt cmp (map fst (fold (addActiveServer cmp) dotTracker acc))"
  by (induction dotTracker arbitrary: acc)
    (simp_all add: addActiveServer_def emplace_sorted [OF assms])

lemma snapshot_set:
  assumes "\<forall>a \<in> A \<union> activeServers dotTracker. \<forall>b \<in> A \<union> activeServers dotTracker.
             a = b \<or> cmp a b \<or> cmp b a"
    and "set acc = (\<lambda>srv. (srv, validationState srv)) ` A"
  shows "set (fold (addActiveServer cmp) dotTracker acc) =
         (\<lambda>srv. (srv, validationState srv)) ` (A \<union> activeServers dotTracker)"
  using assms
proof (induction dotTracker arbitrary: acc A)
  case Nil
  then show ?case by (simp add: activeServers_def)
next
  case (Cons entry rest)
  let ?srv = "snd entry"
  show ?case
  proof (cases "active ?srv")
    case False
    then have same: "activeServers (entry # rest) = activeServers rest"
      by (auto simp: activeServers_def)
    from Cons.prems have "set (fold (addActiveServer cmp) rest acc) =
         (\<lambda>srv. (srv, validationState srv)) ` (A \<union> activeServers rest)"
      unfolding same by (rule Cons.IH)
    moreover from False have "addActiveServer cmp entry acc = acc"
      by (simp add: addActiveServer_def)
    ultimately show ?thesis by (simp add: same)
  next
    case True
    then have more: "activeServers (entry # rest) = insert ?srv (activeServers rest)"
      by (auto simp: activeServers_def)
    let ?acc = "emplace cmp ?srv (validationState ?srv) acc"
    from Cons.prems(1) more
    have apart: "\<forall>a \<in> A. a = ?srv \<or> cmp a ?srv \<or> cmp ?srv a" by simp
    have "(?srv, validationState ?srv) \<in> set ?acc"
    proof (rule emplace_adds, clarify)
      fix k' v'
      assume "(k', v') \<in> set acc" and "\<not> cmp ?srv k'" and "\<not> cmp k' ?srv"
      with Cons.prems(2) apart show "k' = ?srv \<and> v' = validationState ?srv" by auto
    qed
    with emplace_subset [of cmp ?srv "validationState ?srv" acc]
      emplace_keeps [of acc cmp ?srv "validationState ?srv"] Cons.prems(2)
    have acc': "set ?acc = (\<lambda>srv. (srv, validationState srv)) ` (insert ?srv A)"
      by auto
    from Cons.prems(1) more
    have "\<forall>a \<in> insert ?srv A \<union> activeServers rest. \<forall>b \<in> insert ?srv A \<union> activeServers rest.
             a = b \<or> cmp a b \<or> cmp b a"
      by simp
    from this acc' have "set (fold (addActiveServer cmp) rest ?acc) =
         (\<lambda>srv. (srv, validationState srv)) ` (insert ?srv A \<union> activeServers rest)"
      by (rule Cons.IH)
    moreover from True have "addActiveServer cmp entry acc = ?acc"
      by (simp add: addActiveServer_def)
    ultimately show ?thesis by (simp add: more)
  qed
qed

text \<open>
  C2, as amended. \<open>validatedServers\<close> of the snapshot that \<open>getStatusLocked\<close> returns for
  a network contains exactly the active DoT servers of the network whose validation status
  is \<open>success\<close>: every server in the list is active and has none of the statuses unknown,
  in_process and fail, and no server is in it twice. The list is in the key order of the
  snapshot's \<open>dotServersMap\<close>, ascending in the map's comparator; health statistics play
  no part in the order.
\<close>

theorem validatedServers_active_validated:
  assumes keyed: "comparatorOrders cmp dotTracker"
  shows "set (validatedServers (getStatusLocked cmp m dotTracker doh)) =
           {srv \<in> snd ` set dotTracker. active srv \<and> validationState srv = success}
       \<and> (\<forall>srv \<in> set (validatedServers (getStatusLocked cmp m dotTracker doh)).
             active srv \<and> validationState srv \<notin> {unknown, in_process, fail})
       \<and> sorted_wrt cmp (validatedServers (getStatusLocked cmp m dotTracker doh))
       \<and> distinct (validatedServers (getStatusLocked cmp m dotTracker doh))"
proof -
  let ?st = "getStatusLocked cmp m dotTracker doh"
  from keyed have irrefl: "irreflp cmp" and trans: "transp cmp"
    and apart: "\<forall>a \<in> {} \<union> activeServers dotTracker. \<forall>b \<in> {} \<union> activeServers dotTracker.
                  a = b \<or> cmp a b \<or> cmp b a"
    by (simp_all add: comparatorOrders_def)
  have "sorted_wrt cmp (map fst (dotServersMap ?st))"
    unfolding getStatusLocked_def using snapshot_sorted [OF trans, of "[]" dotTracker] by simp
  with irrefl have ordered: "stdMapOrdered cmp (dotServersMap ?st)"
    by (simp add: stdMapOrdered_def)
  have "set (dotServersMap ?st) =
          (\<lambda>srv. (srv, validationState srv)) ` ({} \<union> activeServers dotTracker)"
    unfolding getStatusLocked_def using snapshot_set [OF apart, of "[]"] by simp
  then have recorded: "set (dotServersMap ?st) =
          (\<lambda>srv. (srv, validationState srv)) ` activeServers dotTracker"
    by simp
  from validatedServers_of_ordered_map [OF ordered]
  have listed: "set (validatedServers ?st) = {srv. (srv, success) \<in> set (dotServersMap ?st)}"
    and sorted: "sorted_wrt cmp (validatedServers ?st)"
    and once: "distinct (validatedServers ?st)"
    by simp_all
  from listed recorded
  have members: "set (validatedServers ?st) =
           {srv \<in> snd ` set dotTracker. active srv \<and> validationState srv = success}"
    by (auto simp: activeServers_def)
  then have "\<forall>srv \<in> set (validatedServers ?st).
             active srv \<and> validationState srv \<notin> {unknown, in_process, fail}"
    by simp
  with members sorted once show ?thesis by blast
qed

text \<open>
  The example network: of its six servers the two that are active and validated are
  returned, in address order though the tracker has them in the other order; the validated
  server that is no longer active is in the tracker and not in the list, and neither are
  the active servers with status fail, in_process and unknown.
\<close>

theorem validatedServers_active_validated_witness:
  "comparatorOrders byAddress exampleTracker
   \<and> validatedServers (getStatusLocked byAddress STRICT exampleTracker noDoh) =
       [exampleServer 2 success True, exampleServer 4 success True]
   \<and> exampleServer 1 success False \<in> snd ` set exampleTracker
   \<and> exampleServer 1 success False
       \<notin> set (validatedServers (getStatusLocked byAddress STRICT exampleTracker noDoh))
   \<and> exampleServer 5 fail True
       \<notin> set (validatedServers (getStatusLocked byAddress STRICT exampleTracker noDoh))
   \<and> exampleServer 6 in_process True
       \<notin> set (validatedServers (getStatusLocked byAddress STRICT exampleTracker noDoh))
   \<and> exampleServer 7 unknown True
       \<notin> set (validatedServers (getStatusLocked byAddress STRICT exampleTracker noDoh))"
proof -
  have keyed: "comparatorOrders byAddress exampleTracker"
    by (auto simp: comparatorOrders_def activeServers_def exampleTracker_def exampleEntry_def
        exampleServer_def byAddress_def intro: irreflpI transpI)
  have result: "validatedServers (getStatusLocked byAddress STRICT exampleTracker noDoh) =
       [exampleServer 2 success True, exampleServer 4 success True]"
    by (simp add: validatedServers_def getStatusLocked_def addActiveServer_def
        exampleTracker_def exampleEntry_def exampleServer_def byAddress_def)
  have inactive: "exampleServer 1 success False \<in> snd ` set exampleTracker"
    by (simp add: exampleTracker_def exampleEntry_def)
  from validatedServers_active_validated [OF keyed, of STRICT noDoh]
  have members: "set (validatedServers (getStatusLocked byAddress STRICT exampleTracker noDoh)) =
           {srv \<in> snd ` set exampleTracker. active srv \<and> validationState srv = success}"
    by (rule conjunct1)
  have "exampleServer 1 success False
       \<notin> set (validatedServers (getStatusLocked byAddress STRICT exampleTracker noDoh))"
    and "exampleServer 5 fail True
       \<notin> set (validatedServers (getStatusLocked byAddress STRICT exampleTracker noDoh))"
    and "exampleServer 6 in_process True
       \<notin> set (validatedServers (getStatusLocked byAddress STRICT exampleTracker noDoh))"
    and "exampleServer 7 unknown True
       \<notin> set (validatedServers (getStatusLocked byAddress STRICT exampleTracker noDoh))"
    unfolding members by (simp_all add: exampleServer_def)
  with keyed result inactive show ?thesis by blast
qed

text \<open>
  Why the comparator has to tell the active servers apart: \<open>dotServersMap\<close> is keyed by
  the server under the comparator, so of two active, validated servers with one address
  the snapshot, and with it the list, has only the first.
\<close>

lemma one_server_per_key:
  "\<not> comparatorOrders byAddress sameAddressTracker
   \<and> validatedServers (getStatusLocked byAddress OPPORTUNISTIC sameAddressTracker noDoh) =
       [exampleServer 3 success True]
   \<and> map snd (filter (\<lambda>entry. active (snd entry) \<and> validationState (snd entry) = success)
         sameAddressTracker) = [exampleServer 3 success True, exampleServerNet]"
proof -
  have "\<not> comparatorOrders byAddress sameAddressTracker"
  proof
    assume "comparatorOrders byAddress sameAddressTracker"
    then have apart: "\<forall>a \<in> activeServers sameAddressTracker.
        \<forall>b \<in> activeServers sameAddressTracker. a = b \<or> byAddress a b \<or> byAddress b a"
      by (simp add: comparatorOrders_def)
    have "exampleServer 3 success True \<in> activeServers sameAddressTracker"
      and "exampleServerNet \<in> activeServers sameAddressTracker"
      by (simp_all add: activeServers_def sameAddressTracker_def exampleEntry_def
          exampleServer_def exampleServerNet_def)
    with apart have "exampleServer 3 success True = exampleServerNet
        \<or> byAddress (exampleServer 3 success True) exampleServerNet
        \<or> byAddress exampleServerNet (exampleServer 3 success True)"
      by blast
    then show False
      by (simp add: byAddress_def exampleServer_def exampleServerNet_def)
  qed
  moreover have
    "validatedServers (getStatusLocked byAddress OPPORTUNISTIC sameAddressTracker noDoh) =
       [exampleServer 3 success True]"
    by (simp add: validatedServers_def getStatusLocked_def addActiveServer_def
        sameAddressTracker_def exampleEntry_def exampleServer_def exampleServerNet_def
        byAddress_def)
  moreover have "map snd (filter (\<lambda>entry. active (snd entry) \<and> validationState (snd entry) = success)
         sameAddressTracker) = [exampleServer 3 success True, exampleServerNet]"
    by (simp add: sameAddressTracker_def exampleEntry_def exampleServer_def exampleServerNet_def)
  ultimately show ?thesis by blast
qed

text \<open>
  C2 as stated asks for the order of the health-selection policy. Two validated servers,
  the second with the lower RTT EWMA: the list has the first server first.
\<close>

theorem validatedServers_health_order_counterexample:
  "stdMapOrdered (<) (dotServersMap twoValidated)
   \<and> validatedServers twoValidated = [1, 2]
   \<and> \<not> orderedByHealth secondIsFaster (validatedServers twoValidated)"
  by (simp add: stdMapOrdered_def twoValidated_def validatedServers_def orderedByHealth_def
      healthBefore_def secondIsFaster_def)

section \<open>Properties of the search-domain normalisation\<close>

lemma remdups_snoc:
  "remdups (ys @ [d]) = remdups (filter (\<lambda>x. x \<noteq> d) ys) @ [d]"
  by (induction ys) auto

lemma rev_remdups_rev_Cons:
  "rev (remdups (rev (d # ds))) = d # rev (remdups (rev (filter (\<lambda>x. x \<noteq> d) ds)))"
  by (simp add: remdups_snoc rev_filter)

lemma keepFirst_remdups:
  "keepFirst seen ds = rev (remdups (rev (filter (\<lambda>d. d \<notin> set seen) ds)))"
proof (induction ds arbitrary: seen)
  case Nil
  show ?case by simp
next
  case (Cons d ds)
  show ?case
  proof (cases "d \<in> set seen")
    case True
    with Cons.IH [of seen] show ?thesis by simp
  next
    case False
    have "filter (\<lambda>x. x \<noteq> d) (filter (\<lambda>x. x \<notin> set seen) ds) =
          filter (\<lambda>x. x \<notin> set (d # seen)) ds"
      by (induction ds) auto
    with False Cons.IH [of "d # seen"] show ?thesis
      by (simp add: rev_remdups_rev_Cons del: rev.simps remdups.simps)
  qed
qed

lemma keepFirst_distinct: "distinct (keepFirst seen ds)"
  by (simp add: keepFirst_remdups)

lemma keepFirst_set: "set (keepFirst seen ds) = set ds - set seen"
  by (auto simp: keepFirst_remdups)

text \<open>
  C7. Reading a network's configuration after setting it returns the normalised search
  domains: the domains of at most 255 bytes, each once, in the order of their first
  occurrence in the input, cut to the first 6. The list has at most 6 entries, no entry
  twice, and only entries of the input that are at most 255 bytes long.
\<close>

theorem filterDomains_normalized:
  "map_option domains (getResolverInfo netId (setResolverConfiguration netId srvs doms table)) =
     Some (filterDomains doms)
   \<and> filterDomains doms =
       take 6 (rev (remdups (rev (filter (\<lambda>d. length d \<le> 255) doms))))
   \<and> length (filterDomains doms) \<le> 6
   \<and> distinct (filterDomains doms)
   \<and> (\<forall>d \<in> set (filterDomains doms). length d \<le> 255 \<and> d \<in> set doms)"
proof (intro conjI)
  show "map_option domains (getResolverInfo netId (setResolverConfiguration netId srvs doms table)) =
     Some (filterDomains doms)"
    by (simp add: getResolverInfo_def setResolverConfiguration_def)
  show steps: "filterDomains doms =
       take 6 (rev (remdups (rev (filter (\<lambda>d. length d \<le> 255) doms))))"
    by (simp add: filterDomains_def MAXDNSRCH_def keepFirst_remdups domainFits_def)
  show "length (filterDomains doms) \<le> 6"
    by (simp add: filterDomains_def MAXDNSRCH_def)
  show "distinct (filterDomains doms)"
    unfolding filterDomains_def by (rule distinct_take) (rule keepFirst_distinct)
  show "\<forall>d \<in> set (filterDomains doms). length d \<le> 255 \<and> d \<in> set doms"
  proof
    fix d
    assume "d \<in> set (filterDomains doms)"
    then have "d \<in> set (keepFirst [] (filter domainFits doms))"
      unfolding filterDomains_def by (rule in_set_takeD)
    then show "length d \<le> 255 \<and> d \<in> set doms"
      by (simp add: keepFirst_set domainFits_def)
  qed
qed

text \<open>
  The two inputs of the test SearchPathPrune and the lists it expects to read back.
\<close>

theorem filterDomains_normalized_witness:
  "map_option domains
     (getResolverInfo 30 (setResolverConfiguration 30 [''127.0.0.13''] testDomains2 Map.empty)) =
     Some [''domain0.org'', ''domain1.org'', ''domain2.org'', ''domain14.org.'']
   \<and> map_option domains
     (getResolverInfo 30 (setResolverConfiguration 30 [''127.0.0.13''] testDomains1 Map.empty)) =
     Some [''domain13.org.'']
   \<and> ''domain14.org.'' \<in> set (filterDomains testDomains2)
   \<and> length ''domain14.org.'' \<le> 255
   \<and> ''domain14.org.'' \<in> set testDomains2"
proof -
  have second: "filterDomains testDomains2 =
      [''domain0.org'', ''domain1.org'', ''domain2.org'', ''domain14.org.'']"
    by (simp add: filterDomains_def testDomains2_def MAXDNSRCH_def domainFits_def)
  have first: "filterDomains testDomains1 = [''domain13.org.'']"
    by (simp add: filterDomains_def testDomains1_def MAXDNSRCH_def domainFits_def)
  from filterDomains_normalized [of 30 "[''127.0.0.13'']" testDomains2 Map.empty]
  have "map_option domains
     (getResolverInfo 30 (setResolverConfiguration 30 [''127.0.0.13''] testDomains2 Map.empty)) =
     Some (filterDomains testDomains2)"
    by (rule conjunct1)
  moreover from filterDomains_normalized [of 30 "[''127.0.0.13'']" testDomains1 Map.empty]
  have "map_option domains
     (getResolverInfo 30 (setResolverConfiguration 30 [''127.0.0.13''] testDomains1 Map.empty)) =
     Some (filterDomains testDomains1)"
    by (rule conjunct1)
  moreover have kept: "''domain14.org.'' \<in> set (filterDomains testDomains2)"
    by (simp add: second)
  moreover from filterDomains_normalized [of 30 "[''127.0.0.13'']" testDomains2 Map.empty]
  have bounded: "\<forall>d \<in> set (filterDomains testDomains2). length d \<le> 255 \<and> d \<in> set testDomains2"
    by blast
  from bounded kept have "length ''domain14.org.'' \<le> 255 \<and> ''domain14.org.'' \<in> set testDomains2"
    by (rule bspec)
  ultimately show ?thesis
    unfolding first second by blast
qed

section \<open>Properties of the validation backoff\<close>

lemma doubling_capped:
  fixes c m :: int
  assumes "0 \<le> m" and "0 \<le> c"
  shows "min (2 * min c m * 2 ^ n) m = min (c * 2 ^ Suc n) m"
proof (cases "c \<le> m")
  case True
  then show ?thesis by (simp add: mult.commute mult.left_commute)
next
  case False
  have pow: "(1::int) \<le> 2 ^ n" by simp
  from False have cm: "m < c" by simp
  from assms(1) pow have "m * 1 \<le> m * 2 ^ n" by (intro mult_left_mono) simp_all
  with assms(1) have a: "m \<le> 2 * m * 2 ^ n" by simp
  from assms(2) pow have "c * 1 \<le> c * 2 ^ n" by (intro mult_left_mono) simp_all
  with assms(2) cm have b: "m \<le> c * 2 ^ Suc n" by simp
  from False a b show ?thesis by (simp add: min_def)
qed

lemma nthTimeout_closed:
  "0 \<le> m \<Longrightarrow> 0 \<le> c \<Longrightarrow>
     nthTimeout n \<lparr>mNextTimeout = c, mMaxRetransTime = m\<rparr> = min (c * 2 ^ n) m"
proof (induction n arbitrary: c)
  case 0
  then show ?case by (simp add: getNextTimeout_def Let_def)
next
  case (Suc n)
  have "nthTimeout (Suc n) \<lparr>mNextTimeout = c, mMaxRetransTime = m\<rparr> =
        nthTimeout n \<lparr>mNextTimeout = 2 * min c m, mMaxRetransTime = m\<rparr>"
    by (simp add: getNextTimeout_def Let_def)
  also from Suc.prems have "\<dots> = min (2 * min c m * 2 ^ n) m"
    by (intro Suc.IH) simp_all
  also from Suc.prems have "\<dots> = min (c * 2 ^ Suc n) m"
    by (rule doubling_capped)
  finally show ?case .
qed

text \<open>
  C8. The sequence built by \<open>mBackoffBuilder\<close> hands out 60 seconds first, then twice the
  previous delay after each further failure, and never more than 3600 seconds: the delay
  number \<open>n\<close>, counting from 0, is \<open>min (60 * 2 ^ n) 3600\<close> seconds.
\<close>

theorem backoff_delays:
  "nthTimeout n (build mBackoffBuilder) = min (60 * 2 ^ n) 3600
   \<and> nthTimeout 0 (build mBackoffBuilder) = 60
   \<and> nthTimeout (Suc n) (build mBackoffBuilder) =
       min (2 * nthTimeout n (build mBackoffBuilder)) 3600
   \<and> nthTimeout n (build mBackoffBuilder) \<le> 3600"
proof -
  have closed: "nthTimeout k (build mBackoffBuilder) = min (60 * 2 ^ k) 3600" for k
    by (simp add: build_def mBackoffBuilder_def nthTimeout_closed)
  have first: "nthTimeout 0 (build mBackoffBuilder) = 60"
    by (simp add: closed)
  have step: "nthTimeout (Suc n) (build mBackoffBuilder) =
       min (2 * nthTimeout n (build mBackoffBuilder)) 3600"
    unfolding closed by (simp add: min_def)
  have bound: "nthTimeout n (build mBackoffBuilder) \<le> 3600"
    by (simp add: closed)
  from closed first step bound show ?thesis by blast
qed

section \<open>Properties of getDohIdentity\<close>

lemma matchKnownIp_find:
  "matchKnownIp this xs h =
     (case find (\<lambda>ip. ip \<in> ips this) xs of
        None \<Rightarrow> Inl server_not_matched
      | Some ip \<Rightarrow> Inr (makeIdentity this ip h))"
  by (induction xs) simp_all

lemma matchKnownIp_status:
  "matchKnownIp this xs h = Inr d \<Longrightarrow> status d = in_process"
  by (induction xs) (auto simp: makeIdentity_def split: if_splits)

text \<open>
  C10. \<open>getDohIdentity\<close> with a non-empty host fails with "host not matched" unless the
  host is the provider's; when it is, the identity carries the first element of
  \<open>sortedValidIps\<close>, whether or not the provider's set has it, and an empty
  \<open>sortedValidIps\<close> fails with "server not matched". With an empty host the identity carries
  the first element of \<open>sortedValidIps\<close> that the provider's set has, and the call fails
  with "server not matched" when there is none. Every identity returned has status
  \<open>in_process\<close>.
\<close>

theorem getDohIdentity_contract:
  "(h \<noteq> [] \<longrightarrow>
      getDohIdentity this sortedValidIps h =
        (if DohProviderEntry.host this \<noteq> h then Inl (host_not_matched h)
         else case sortedValidIps of
                [] \<Rightarrow> Inl server_not_matched
              | ip # _ \<Rightarrow>
                  Inr \<lparr>httpsTemplate = DohProviderEntry.httpsTemplate this, ipAddr = ip,
                       host = h, status = in_process\<rparr>))
   \<and> (h = [] \<longrightarrow>
      getDohIdentity this sortedValidIps h =
        (case find (\<lambda>ip. ip \<in> ips this) sortedValidIps of
           None \<Rightarrow> Inl server_not_matched
         | Some ip \<Rightarrow>
             Inr \<lparr>httpsTemplate = DohProviderEntry.httpsTemplate this, ipAddr = ip,
                  host = h, status = in_process\<rparr>))
   \<and> (\<forall>d. getDohIdentity this sortedValidIps h = Inr d \<longrightarrow> status d = in_process)"
proof (intro conjI impI allI)
  assume named: "h \<noteq> []"
  show "getDohIdentity this sortedValidIps h =
        (if DohProviderEntry.host this \<noteq> h then Inl (host_not_matched h)
         else case sortedValidIps of
                [] \<Rightarrow> Inl server_not_matched
              | ip # _ \<Rightarrow>
                  Inr \<lparr>httpsTemplate = DohProviderEntry.httpsTemplate this, ipAddr = ip,
                       host = h, status = in_process\<rparr>)"
  proof (cases sortedValidIps)
    case Nil
    with named show ?thesis by (simp add: getDohIdentity_def)
  next
    case (Cons ip rest)
    with named show ?thesis by (simp add: getDohIdentity_def makeIdentity_def)
  qed
next
  assume anonymous: "h = []"
  then have "getDohIdentity this sortedValidIps h = matchKnownIp this sortedValidIps h"
    by (simp add: getDohIdentity_def)
  then show "getDohIdentity this sortedValidIps h =
        (case find (\<lambda>ip. ip \<in> ips this) sortedValidIps of
           None \<Rightarrow> Inl server_not_matched
         | Some ip \<Rightarrow>
             Inr \<lparr>httpsTemplate = DohProviderEntry.httpsTemplate this, ipAddr = ip,
                  host = h, status = in_process\<rparr>)"
    by (simp add: matchKnownIp_find makeIdentity_def split: option.split)
next
  fix d
  assume ok: "getDohIdentity this sortedValidIps h = Inr d"
  show "status d = in_process"
  proof (cases "h \<noteq> [] \<and> DohProviderEntry.host this = h \<and> sortedValidIps \<noteq> []")
    case True
    with ok have "d = makeIdentity this (sortedValidIps ! 0) h"
      by (simp add: getDohIdentity_def)
    then show ?thesis by (simp add: makeIdentity_def)
  next
    case False
    with ok have "matchKnownIp this sortedValidIps h = Inr d"
      by (auto simp: getDohIdentity_def split: if_splits)
    then show ?thesis by (rule matchKnownIp_status)
  qed
qed

text \<open>
  The provider Google at concrete inputs: with its host name, an address outside its set is
  taken; without a host name, that address is skipped for the first known one.
\<close>

theorem getDohIdentity_contract_witness:
  "getDohIdentity googleProvider [''192.0.2.7'', ''8.8.8.8''] ''dns.google'' =
     Inr \<lparr>httpsTemplate = ''https://dns.google/dns-query'', ipAddr = ''192.0.2.7'',
          host = ''dns.google'', status = in_process\<rparr>
   \<and> ''192.0.2.7'' \<notin> ips googleProvider
   \<and> getDohIdentity googleProvider [''192.0.2.7'', ''8.8.8.8''] [] =
     Inr \<lparr>httpsTemplate = ''https://dns.google/dns-query'', ipAddr = ''8.8.8.8'',
          host = [], status = in_process\<rparr>
   \<and> getDohIdentity googleProvider [''192.0.2.7''] [] = Inl server_not_matched
   \<and> getDohIdentity googleProvider [] ''dns.google'' = Inl server_not_matched
   \<and> getDohIdentity googleProvider [''8.8.8.8''] ''dns.quad9.net'' =
     Inl (host_not_matched ''dns.quad9.net'')"
  using getDohIdentity_contract [of "''dns.google''" googleProvider "[''192.0.2.7'', ''8.8.8.8'']"]
    getDohIdentity_contract [of "[]" googleProvider "[''192.0.2.7'', ''8.8.8.8'']"]
    getDohIdentity_contract [of "[]" googleProvider "[''192.0.2.7'']"]
    getDohIdentity_contract [of "''dns.google''" googleProvider "[]"]
    getDohIdentity_contract [of "''dns.quad9.net''" googleProvider "[''8.8.8.8'']"]
  by (simp add: googleProvider_def)

end
